theory Spec2Isabelle
  imports Complex_Main "HOL-Library.Sublist"
begin

section \<open>Python strings\<close>

text \<open>
  A Python \<open>str\<close> is modelled as a \<open>string\<close>; one \<open>char\<close> stands for one code
  point (U+0000 to U+00FF), so \<open>length\<close> is Python's \<open>len\<close> and \<open>take\<close> is a slice
  \<open>s[:n]\<close>. The helpers below are the \<open>str\<close> methods the source calls.
\<close>

definition newline :: char where
  "newline = CHR 0x0A"

text \<open>\<open>str.isspace\<close> on one code point below U+0100: what \<open>strip()\<close> and \<open>split()\<close> remove.\<close>

definition is_space :: "char \<Rightarrow> bool" where
  "is_space c = (of_char c \<in> {9, 10, 11, 12, 13, 28, 29, 30, 31, 32, 133, 160 :: nat})"

text \<open>\<open>s.strip()\<close>\<close>

definition lstrip :: "string \<Rightarrow> string" where
  "lstrip s = dropWhile is_space s"

definition rstrip :: "string \<Rightarrow> string" where
  "rstrip s = rev (dropWhile is_space (rev s))"

definition strip :: "string \<Rightarrow> string" where
  "strip s = rstrip (lstrip s)"

text \<open>\<open>s.startswith(m)\<close>\<close>

definition startswith :: "string \<Rightarrow> string \<Rightarrow> bool" where
  "startswith s m = (take (length m) s = m)"

text \<open>\<open>s.split(c)\<close> for a one-character separator: never an empty list.\<close>

fun split_on :: "char \<Rightarrow> string \<Rightarrow> string list" where
  "split_on c [] = [[]]"
| "split_on c (x # xs) =
     (if x = c then [] # split_on c xs
      else (case split_on c xs of
              [] \<Rightarrow> [[x]]
            | w # ws \<Rightarrow> (x # w) # ws))"

text \<open>\<open>s.split()\<close>: the maximal runs of non-whitespace, in order.\<close>

fun split_ws_from :: "string \<Rightarrow> string \<Rightarrow> string list" where
  "split_ws_from w [] = (if w = [] then [] else [w])"
| "split_ws_from w (x # xs) =
     (if is_space x then (if w = [] then split_ws_from [] xs else w # split_ws_from [] xs)
      else split_ws_from (w @ [x]) xs)"

definition split_ws :: "string \<Rightarrow> string list" where
  "split_ws s = split_ws_from [] s"

text \<open>\<open>s.lower()\<close> on code points below U+0100: A-Z and the Latin-1 capitals but U+00D7.\<close>

definition lower_char :: "char \<Rightarrow> char" where
  "lower_char c =
     (let n = (of_char c :: nat)
      in if (65 \<le> n \<and> n \<le> 90) \<or> (192 \<le> n \<and> n \<le> 222 \<and> n \<noteq> 215)
         then char_of (n + 32) else c)"

definition lower :: "string \<Rightarrow> string" where
  "lower s = map lower_char s"

text \<open>\<open>sub in s\<close>\<close>

fun contains :: "string \<Rightarrow> string \<Rightarrow> bool" where
  "contains sub [] = (sub = [])"
| "contains sub (x # xs) = (startswith (x # xs) sub \<or> contains sub xs)"

text \<open>\<open>sep.join(parts)\<close>\<close>

fun join :: "string \<Rightarrow> string list \<Rightarrow> string" where
  "join sep [] = []"
| "join sep [p] = p"
| "join sep (p # q # ps) = p @ sep @ join sep (q # ps)"

text \<open>\<open>str(n)\<close> for an \<open>int\<close>: decimal digits, a minus sign when negative.\<close>

definition digit_char :: "nat \<Rightarrow> char" where
  "digit_char d = char_of (48 + d)"

fun str_nat :: "nat \<Rightarrow> string" where
  "str_nat n = (if n < 10 then [digit_char n] else str_nat (n div 10) @ [digit_char (n mod 10)])"

declare str_nat.simps [simp del]

definition str_int :: "int \<Rightarrow> string" where
  "str_int i = (if i < 0 then CHR ''-'' # str_nat (nat (- i)) else str_nat (nat i))"

text \<open>A slice \<open>xs[i:]\<close>: a negative start counts from the end, and is clamped at 0.\<close>

definition slice_from :: "'a list \<Rightarrow> int \<Rightarrow> 'a list" where
  "slice_from xs i =
     (if i < 0 then drop (nat (int (length xs) + i)) xs else drop (nat i) xs)"

section \<open>Answer parsing (rag_chain.py)\<close>

text \<open>The variable \<open>current_section\<close> of \<open>_parse_llm_response\<close>: \<open>None\<close>, "answer", "reasoning".\<close>

datatype section_name = NoSection | AnswerSection | ReasoningSection

text \<open>One iteration of the loop over the lines, on the state (current_section, answer, reasoning).\<close>

definition parse_line :: "string \<Rightarrow> section_name \<times> string \<times> string \<Rightarrow> section_name \<times> string \<times> string" where
  "parse_line raw_line st =
     (case st of (current_section, answer, reasoning) \<Rightarrow>
        let line = strip raw_line
        in if startswith line ''ANSWER:'' then (AnswerSection, strip (drop 7 line), reasoning)
           else if startswith line ''REASONING:'' then (ReasoningSection, answer, strip (drop 10 line))
           else if current_section = AnswerSection \<and> line \<noteq> [] then
             (current_section, answer @ '' '' @ line, reasoning)
           else if current_section = ReasoningSection \<and> line \<noteq> [] then
             (current_section, answer, reasoning @ '' '' @ line)
           else (current_section, answer, reasoning))"

fun parse_lines :: "string list \<Rightarrow> section_name \<times> string \<times> string \<Rightarrow> section_name \<times> string \<times> string" where
  "parse_lines [] st = st"
| "parse_lines (l # ls) st = parse_lines ls (parse_line l st)"

definition parse_llm_response :: "string \<Rightarrow> string \<times> string" where
  "parse_llm_response response =
     (case parse_lines (split_on newline response) (NoSection, [], []) of
        (current_section, answer, reasoning) \<Rightarrow>
          if answer = [] \<and> reasoning = [] then
            (strip response, strip ''Answer derived from document analysis.'')
          else if reasoning = [] then
            (strip answer, strip ''Based on the provided document context.'')
          else (strip answer, strip reasoning))"


section \<open>Data model (models.py)\<close>

text \<open>
  A \<open>datetime\<close> is modelled by its ISO-8601 text, so \<open>isoformat()\<close> is the identity.
  Field names of the source that two classes share carry a prefix here.
\<close>

type_synonym datetime = string

record document_chunk =
  dc_document_id :: string
  dc_filename :: string
  dc_chunk_id :: string
  dc_chunk_text :: string
  dc_page_number :: "int option"
  dc_upload_timestamp :: datetime
  dc_metadata :: "(string \<times> string) list"

record reference =
  document :: string
  page :: "int option"
  chunk_id :: string
  content_snippet :: string
  relevance_score :: real

record answer_response =
  answer :: string
  reasoning :: string
  references :: "reference list"
  suggestions :: "string list"
  conversation_id :: string

record conversation_turn =
  turn_question :: string
  turn_answer :: string
  turn_references :: "reference list"
  turn_timestamp :: datetime

text \<open>
  The metadata dict the vector index keeps with a chunk, with the keys \<open>add_chunks\<close>
  writes; \<open>None\<close> is an absent key (the readers use \<open>.get\<close>).
\<close>

record index_metadata =
  md_document_id :: "string option"
  md_filename :: "string option"
  md_page_number :: "int option"
  md_upload_timestamp :: "string option"

text \<open>A retrieved chunk: (chunk_id, content, metadata, score).\<close>

type_synonym retrieved_chunk = "string \<times> string \<times> index_metadata \<times> real"

section \<open>Configuration (config.py)\<close>

record config =
  CHUNK_SIZE :: int
  CHUNK_OVERLAP :: int
  TOP_K_DEFAULT :: int
  MAX_HISTORY_TURNS :: int

text \<open>The values used when the environment sets none.\<close>

definition default_config :: config where
  "default_config = \<lparr>CHUNK_SIZE = 400, CHUNK_OVERLAP = 50, TOP_K_DEFAULT = 4, MAX_HISTORY_TURNS = 5\<rparr>"

section \<open>Conversation store (database.py)\<close>

text \<open>
  The \<open>conversations\<close> collection: at most one document per \<open>user_id\<close>, holding the
  list of turns and \<open>last_updated\<close>. The store is taken to answer every call.
\<close>

record user_history =
  conversations :: "conversation_turn list"
  last_updated :: datetime

type_synonym conversations_collection = "string \<rightharpoonup> user_history"

definition get_conversation_history ::
  "config \<Rightarrow> conversations_collection \<Rightarrow> string \<Rightarrow> int option \<Rightarrow> conversation_turn list" where
  "get_conversation_history cfg db user_id limit_arg =
     (let limit = (case limit_arg of None \<Rightarrow> MAX_HISTORY_TURNS cfg | Some n \<Rightarrow> n)
      in case db user_id of
           None \<Rightarrow> []
         | Some history \<Rightarrow> slice_from (conversations history) (- limit))"

text \<open>
  The one call the function makes on the store:
  \<open>update_one({user_id}, {$push: {conversations: turn}, $set: {last_updated: now}}, upsert=True)\<close>,
  on a store that holds one document per user.
\<close>

definition update_one_push ::
  "string \<Rightarrow> conversation_turn \<Rightarrow> datetime \<Rightarrow> conversations_collection \<Rightarrow> conversations_collection" where
  "update_one_push user_id turn now db =
     (case db user_id of
        None \<Rightarrow> db(user_id \<mapsto> \<lparr>conversations = [turn], last_updated = now\<rparr>)
      | Some history \<Rightarrow>
          db(user_id \<mapsto> history\<lparr>conversations := conversations history @ [turn], last_updated := now\<rparr>))"

definition store_conversation_turn ::
  "conversations_collection \<Rightarrow> string \<Rightarrow> conversation_turn \<Rightarrow> datetime \<Rightarrow> conversations_collection \<times> string" where
  "store_conversation_turn db user_id turn now = (update_one_push user_id turn now db, user_id)"

section \<open>Vector store (vector_store.py)\<close>

text \<open>
  The external services: the embedding endpoint and the chat endpoint return a value or
  raise (\<open>Inl\<close> carries \<open>str(e)\<close>); the index answers a query with its hits
  (id, document, metadata, distance), best first; \<open>utcnow\<close> is the clock, read by call
  number; \<open>set_iteration\<close> is the order in which Python iterates a set of strings.
\<close>

type_synonym index_hit = "string \<times> string \<times> index_metadata \<times> real"

record services =
  embeddings_create :: "string \<Rightarrow> string + real list"
  collection_query :: "real list \<Rightarrow> int \<Rightarrow> index_hit list"
  chat_completions_create :: "string \<Rightarrow> string + string"
  utcnow :: "nat \<Rightarrow> datetime"
  set_iteration :: "string set \<Rightarrow> string list"

definition get_embedding :: "services \<Rightarrow> string \<Rightarrow> real list" where
  "get_embedding sv text = (case embeddings_create sv text of Inl e \<Rightarrow> [] | Inr embedding \<Rightarrow> embedding)"

text \<open>The arguments of the one \<open>collection.add\<close> call of \<open>add_chunks\<close>.\<close>

record add_request =
  add_embeddings :: "real list list"
  add_documents :: "string list"
  add_metadatas :: "index_metadata list"
  add_ids :: "string list"

fun embed_all :: "services \<Rightarrow> string list \<Rightarrow> real list list \<Rightarrow> real list list" where
  "embed_all sv [] embeddings = embeddings"
| "embed_all sv (text # texts) embeddings = embed_all sv texts (embeddings @ [get_embedding sv text])"

definition chunk_index_metadata :: "document_chunk \<Rightarrow> index_metadata" where
  "chunk_index_metadata chunk =
     \<lparr>md_document_id = Some (dc_document_id chunk),
      md_filename = Some (dc_filename chunk),
      md_page_number = Some (case dc_page_number chunk of None \<Rightarrow> 0 | Some n \<Rightarrow> if n = 0 then 0 else n),
      md_upload_timestamp = Some (dc_upload_timestamp chunk)\<rparr>"

definition add_chunks :: "services \<Rightarrow> document_chunk list \<Rightarrow> add_request" where
  "add_chunks sv chunks =
     (let texts = map dc_chunk_text chunks;
          chunk_ids = map dc_chunk_id chunks;
          embeddings = embed_all sv texts [];
          metadatas = map chunk_index_metadata chunks
      in \<lparr>add_embeddings = embeddings, add_documents = texts,
          add_metadatas = metadatas, add_ids = chunk_ids\<rparr>)"

definition similarity_search :: "services \<Rightarrow> string \<Rightarrow> int \<Rightarrow> retrieved_chunk list" where
  "similarity_search sv query top_k =
     (let query_embedding = get_embedding sv query
      in if query_embedding = [] then []
         else map (\<lambda>(chunk_id, document, metadata, distance). (chunk_id, document, metadata, 1 - distance))
                (collection_query sv query_embedding top_k))"

section \<open>The answering pipeline (rag_chain.py)\<close>

subsection \<open>Prompt assembly\<close>

definition history_parts :: "conversation_turn list \<Rightarrow> string list" where
  "history_parts history =
     (if history \<noteq> [] then
        [newline # ''## Previous Conversation:''] @
        concat (map (\<lambda>turn. [''Q: '' @ turn_question turn, ''A: '' @ turn_answer turn])
                  (slice_from history (- 3)))
      else [])"

text \<open>The loop over \<open>enumerate(retrieved_chunks)\<close>, \<open>i\<close> being the index reached.\<close>

fun document_parts :: "nat \<Rightarrow> retrieved_chunk list \<Rightarrow> string list" where
  "document_parts i [] = []"
| "document_parts i ((cid, content, metadata, score) # rest) =
     (let filename = (case md_filename metadata of None \<Rightarrow> ''Unknown'' | Some f \<Rightarrow> f);
          page_num = (case md_page_number metadata of None \<Rightarrow> ''N/A'' | Some n \<Rightarrow> str_int n)
      in [newline # ''[Document '' @ str_nat (i + 1) @ '': '' @ filename @ '', Page '' @ page_num @ '']'',
          content] @ document_parts (i + 1) rest)"

definition instructions :: string where
  "instructions =
     newline # join [newline]
       [''## Instructions:'',
        ''1. Answer the question based ONLY on the provided document context'',
        ''2. If the answer cannot be found in the documents, say so clearly'',
        ''3. Cite specific documents and pages when possible'',
        ''4. Provide reasoning for how you arrived at your answer'',
        ''5. Be concise but comprehensive'',
        ''6. Consider the conversation history for context'',
        [],
        ''Please provide your answer in the following format:'',
        ''ANSWER: [Your detailed answer here]'',
        ''REASONING: [Explain how you derived this answer from the documents]'',
        []]"

definition build_context_prompt ::
  "string \<Rightarrow> conversation_turn list \<Rightarrow> retrieved_chunk list \<Rightarrow> string" where
  "build_context_prompt question history retrieved_chunks =
     join [newline]
       ([''You are a helpful assistant that answers questions based on provided documents.''] @
        history_parts history @
        (if retrieved_chunks \<noteq> [] then
           [newline # ''## Document Context:''] @ document_parts 0 retrieved_chunks
         else []) @
        [newline # ''## Current Question:'' @ newline # question] @
        [instructions])"

subsection \<open>Follow-up suggestions\<close>

fun collect_topics :: "reference list \<Rightarrow> string set \<Rightarrow> string set" where
  "collect_topics [] topics = topics"
| "collect_topics (ref # refs) topics =
     collect_topics refs
       (topics \<union> set (filter (\<lambda>word. length word > 4) (split_ws (lower (content_snippet ref)))))"

definition generate_suggestions ::
  "(string set \<Rightarrow> string list) \<Rightarrow> string \<Rightarrow> string \<Rightarrow> reference list \<Rightarrow> string list" where
  "generate_suggestions iteration_order question answer_text refs =
     (let topics = collect_topics refs {};
          s1 = (if contains ''what'' (lower question)
                then [''How does this relate to other aspects mentioned in the documents?''] else []);
          s2 = (if contains ''why'' (lower question)
                then [''What are the implications of this?''] else []);
          s3 = (if contains ''when'' (lower question)
                then [''What happened before or after this?''] else []);
          s4 = map (\<lambda>topic. ''Tell me more about '' @ topic) (take 2 (iteration_order topics))
      in take 3 (s1 @ s2 @ s3 @ s4))"

subsection \<open>References\<close>

text \<open>
  Python's \<open>round(x, ndigits)\<close> on the real number the float stands for: to the nearest
  multiple of \<open>10^-ndigits\<close>, a tie going to the even one. (The float result's own
  representation error is not modelled.)
\<close>

definition round_half_even :: "real \<Rightarrow> int" where
  "round_half_even x =
     (let f = \<lfloor>x\<rfloor>; d = x - of_int f
      in if d < 1 / 2 then f
         else if d > 1 / 2 then f + 1
         else if even f then f else f + 1)"

definition py_round :: "real \<Rightarrow> nat \<Rightarrow> real" where
  "py_round x ndigits = of_int (round_half_even (x * 10 ^ ndigits)) / 10 ^ ndigits"

definition make_reference :: "retrieved_chunk \<Rightarrow> reference" where
  "make_reference rc =
     (case rc of (cid, content, metadata, score) \<Rightarrow>
        let snippet = (if length content > 150 then take 150 content @ ''...'' else content)
        in \<lparr>document = (case md_filename metadata of None \<Rightarrow> ''Unknown'' | Some f \<Rightarrow> f),
            page = md_page_number metadata,
            chunk_id = cid,
            content_snippet = snippet,
            relevance_score = py_round score 3\<rparr>)"

text \<open>The loop of \<open>_extract_references\<close>, \<open>refs\<close> being the list built so far.\<close>

fun extract_references_loop :: "retrieved_chunk list \<Rightarrow> reference list \<Rightarrow> reference list" where
  "extract_references_loop [] refs = refs"
| "extract_references_loop (rc # rest) refs = extract_references_loop rest (refs @ [make_reference rc])"

definition extract_references :: "retrieved_chunk list \<Rightarrow> string \<Rightarrow> reference list" where
  "extract_references retrieved_chunks answer_text = extract_references_loop retrieved_chunks []"

subsection \<open>The orchestrator\<close>

definition no_evidence_response :: "string \<Rightarrow> answer_response" where
  "no_evidence_response user_id =
     \<lparr>answer = ''I couldn't find relevant information in the uploaded documents to answer your question.'',
      reasoning = ''No documents were found that match your query. Please ensure you have uploaded relevant documents.'',
      references = [],
      suggestions = [''Try rephrasing your question'', ''Upload relevant documents first''],
      conversation_id = user_id\<rparr>"

definition generation_failed_response :: "string \<Rightarrow> string \<Rightarrow> answer_response" where
  "generation_failed_response user_id e =
     \<lparr>answer = ''I encountered an error while processing your question: '' @ e,
      reasoning = ''There was a technical issue with the language model.'',
      references = [],
      suggestions = [''Please try asking your question again''],
      conversation_id = user_id\<rparr>"

text \<open>
  \<open>answer_question\<close> returns the response and the conversation store it leaves. The chat
  endpoint's content is a \<open>str\<close>, as \<open>_parse_llm_response\<close> declares its argument.
\<close>

definition answer_question ::
  "services \<Rightarrow> config \<Rightarrow> conversations_collection \<Rightarrow> string \<Rightarrow> string \<Rightarrow> int \<Rightarrow>
     answer_response \<times> conversations_collection" where
  "answer_question sv cfg db user_id question top_k =
     (let history = get_conversation_history cfg db user_id None;
          retrieved_chunks = similarity_search sv question top_k
      in if retrieved_chunks = [] then (no_evidence_response user_id, db)
         else
           let prompt = build_context_prompt question history retrieved_chunks
           in case chat_completions_create sv prompt of
                Inl e \<Rightarrow> (generation_failed_response user_id e, db)
              | Inr llm_response \<Rightarrow>
                  (case parse_llm_response llm_response of
                     (answer_text, reasoning_text) \<Rightarrow>
                       let refs = extract_references retrieved_chunks answer_text;
                           suggs = generate_suggestions (set_iteration sv) question answer_text refs;
                           conversation_turn =
                             \<lparr>turn_question = question, turn_answer = answer_text,
                              turn_references = refs, turn_timestamp = utcnow sv 0\<rparr>;
                           db' = fst (store_conversation_turn db user_id conversation_turn (utcnow sv 1))
                       in (\<lparr>answer = answer_text, reasoning = reasoning_text, references = refs,
                            suggestions = suggs, conversation_id = user_id\<rparr>, db')))"

section \<open>Chunking (document_processor.py)\<close>

text \<open>The tokenizer (\<open>tiktoken\<close>'s encoding object): any pair of functions.\<close>

record 't encoding =
  encode :: "string \<Rightarrow> 't list"
  decode :: "'t list \<Rightarrow> string"

definition count_tokens :: "'t encoding \<Rightarrow> string \<Rightarrow> int" where
  "count_tokens enc text = int (length (encode enc text))"

definition get_overlap_text :: "'t encoding \<Rightarrow> string \<Rightarrow> int \<Rightarrow> string" where
  "get_overlap_text enc text overlap_tokens =
     (let tokens = encode enc text
      in if int (length tokens) \<le> overlap_tokens then text
         else decode enc (slice_from tokens (- overlap_tokens)))"

definition get_page_for_text :: "string \<Rightarrow> (string \<times> int) list \<Rightarrow> int" where
  "get_page_for_text text page_mapping = 1"

text \<open>
  The chunk built at both places of \<open>chunk_text\<close>; \<open>clock k\<close> is the time read for the
  chunk of index \<open>k\<close>. An empty or absent \<open>page_mapping\<close> gives no page.
\<close>

definition make_chunk ::
  "(nat \<Rightarrow> datetime) \<Rightarrow> string \<Rightarrow> string \<Rightarrow> (string \<times> int) list option \<Rightarrow> nat \<Rightarrow> string \<Rightarrow> document_chunk" where
  "make_chunk clock document_id filename page_mapping chunk_index current_chunk =
     \<lparr>dc_document_id = document_id,
      dc_filename = filename,
      dc_chunk_id = document_id @ ''_chunk_'' @ str_nat chunk_index,
      dc_chunk_text = strip current_chunk,
      dc_page_number =
        (case page_mapping of
           None \<Rightarrow> None
         | Some pm \<Rightarrow> if pm = [] then None else Some (get_page_for_text current_chunk pm)),
      dc_upload_timestamp = clock chunk_index,
      dc_metadata = []\<rparr>"

text \<open>The loop state: (chunks, current_chunk, current_tokens, chunk_index).\<close>

type_synonym chunk_state = "document_chunk list \<times> string \<times> int \<times> nat"

definition chunk_step ::
  "'t encoding \<Rightarrow> config \<Rightarrow> (nat \<Rightarrow> datetime) \<Rightarrow> string \<Rightarrow> string \<Rightarrow> (string \<times> int) list option \<Rightarrow>
     string \<Rightarrow> chunk_state \<Rightarrow> chunk_state" where
  "chunk_step enc cfg clock document_id filename page_mapping raw_sentence st =
     (case st of (chunks, current_chunk, current_tokens, chunk_index) \<Rightarrow>
        let stripped = strip raw_sentence
        in if stripped = [] then st
           else
             let sentence = stripped @ ''.'';
                 sentence_tokens = count_tokens enc sentence
             in if current_tokens + sentence_tokens > CHUNK_SIZE cfg \<and> current_chunk \<noteq> [] then
                  let chunk = make_chunk clock document_id filename page_mapping chunk_index current_chunk;
                      overlap_text = get_overlap_text enc current_chunk (CHUNK_OVERLAP cfg);
                      new_chunk = overlap_text @ '' '' @ sentence
                  in (chunks @ [chunk], new_chunk, count_tokens enc new_chunk, chunk_index + 1)
                else (chunks, current_chunk @ '' '' @ sentence, current_tokens + sentence_tokens, chunk_index))"

fun chunk_loop ::
  "'t encoding \<Rightarrow> config \<Rightarrow> (nat \<Rightarrow> datetime) \<Rightarrow> string \<Rightarrow> string \<Rightarrow> (string \<times> int) list option \<Rightarrow>
     string list \<Rightarrow> chunk_state \<Rightarrow> chunk_state" where
  "chunk_loop enc cfg clock document_id filename page_mapping [] st = st"
| "chunk_loop enc cfg clock document_id filename page_mapping (s # sentences) st =
     chunk_loop enc cfg clock document_id filename page_mapping sentences
       (chunk_step enc cfg clock document_id filename page_mapping s st)"

definition chunk_text ::
  "'t encoding \<Rightarrow> config \<Rightarrow> (nat \<Rightarrow> datetime) \<Rightarrow> string \<Rightarrow> string \<Rightarrow> string \<Rightarrow>
     (string \<times> int) list option \<Rightarrow> document_chunk list" where
  "chunk_text enc cfg clock text document_id filename page_mapping =
     (case chunk_loop enc cfg clock document_id filename page_mapping (split_on CHR ''.'' text)
             ([], [], 0, 0) of
        (chunks, current_chunk, current_tokens, chunk_index) \<Rightarrow>
          if strip current_chunk \<noteq> [] then
            chunks @ [make_chunk clock document_id filename page_mapping chunk_index current_chunk]
          else chunks)"

section \<open>Example inputs\<close>

text \<open>
  Services that answer with fixed values: the embedding endpoint returns a one-dimensional
  vector, the index returns \<open>hits\<close>, the chat endpoint returns \<open>reply\<close>.
\<close>

definition stub_services :: "index_hit list \<Rightarrow> (string + string) \<Rightarrow> services" where
  "stub_services hits reply =
     \<lparr>embeddings_create = (\<lambda>text. Inr [1]),
      collection_query = (\<lambda>v k. hits),
      chat_completions_create = (\<lambda>prompt. reply),
      utcnow = (\<lambda>n. ''2024-01-01T00:00:00''),
      set_iteration = (\<lambda>topics. [])\<rparr>"

definition sky_hit :: index_hit where
  "sky_hit = (''doc_chunk_0'', ''The sky is blue.'',
     \<lparr>md_document_id = Some ''doc'', md_filename = Some ''sky.txt'', md_page_number = Some 0,
      md_upload_timestamp = Some ''2024-01-01T00:00:00''\<rparr>, 1 / 4)"

definition sky_chunk :: document_chunk where
  "sky_chunk =
     \<lparr>dc_document_id = ''doc'', dc_filename = ''sky.txt'', dc_chunk_id = ''doc_chunk_0'',
      dc_chunk_text = ''The sky is blue.'', dc_page_number = None,
      dc_upload_timestamp = ''2024-01-01T00:00:00'', dc_metadata = []\<rparr>"

text \<open>Services whose embedding endpoint raises on every call.\<close>

definition failing_embedding_services :: services where
  "failing_embedding_services =
     \<lparr>embeddings_create = (\<lambda>text. Inl ''Connection error.''),
      collection_query = (\<lambda>v k. [sky_hit]),
      chat_completions_create = (\<lambda>prompt. Inr ''ANSWER: blue''),
      utcnow = (\<lambda>n. ''2024-01-01T00:00:00''),
      set_iteration = (\<lambda>topics. [])\<rparr>"

text \<open>The turns the store holds for a user, an absent document holding none.\<close>

definition stored_history :: "conversations_collection \<Rightarrow> string \<Rightarrow> conversation_turn list" where
  "stored_history db user_id = (case db user_id of None \<Rightarrow> [] | Some history \<Rightarrow> conversations history)"

section \<open>Notions used to state the properties\<close>

text \<open>
  A marker line, as the parser sees it: a line of the response that starts with the marker
  once the line is stripped.
\<close>

definition has_marker_line :: "string \<Rightarrow> string \<Rightarrow> bool" where
  "has_marker_line m response = list_ex (\<lambda>l. startswith (strip l) m) (split_on newline response)"

text \<open>
  What the parser holds as the answer after an \<open>ANSWER:\<close> line \<open>l\<close> followed by the lines
  \<open>post\<close>, none of them a marker line: the text after the marker, then each non-blank
  line, joined by one space.
\<close>

definition captured_answer :: "string \<Rightarrow> string list \<Rightarrow> string" where
  "captured_answer l post =
     strip (drop 7 (strip l)) @
     concat (map (\<lambda>x. '' '' @ strip x) (filter (\<lambda>x. strip x \<noteq> []) post))"

text \<open>Reading a decimal numeral back: the inverse of \<open>str_nat\<close>.\<close>

definition nat_of_digits :: "string \<Rightarrow> nat" where
  "nat_of_digits s = foldl (\<lambda>a c. 10 * a + (of_char c - 48)) 0 s"

text \<open>
  The sentences the chunker works on: the pieces between full stops, stripped, the blank
  ones dropped, the full stop put back.
\<close>

definition sentences_of :: "string list \<Rightarrow> string list" where
  "sentences_of pieces = map (\<lambda>s. strip s @ ''.'') (filter (\<lambda>s. strip s \<noteq> []) pieces)"

definition sentences :: "string \<Rightarrow> string list" where
  "sentences text = sentences_of (split_on CHR ''.'' text)"

definition longest_sentence_tokens :: "'t encoding \<Rightarrow> string \<Rightarrow> int" where
  "longest_sentence_tokens enc text = fold max (map (count_tokens enc) (sentences text)) 0"

text \<open>
  The buffers behind the chunks: \<open>chunk_text\<close> with the chunk records left out, keeping
  each value of \<open>current_chunk\<close> that is emitted (a chunk's text is that value stripped).
\<close>

definition buffer_step ::
  "'t encoding \<Rightarrow> config \<Rightarrow> string \<Rightarrow> string list \<times> string \<times> int \<Rightarrow> string list \<times> string \<times> int" where
  "buffer_step enc cfg raw_sentence st =
     (case st of (buffers, current_chunk, current_tokens) \<Rightarrow>
        let stripped = strip raw_sentence
        in if stripped = [] then st
           else
             let sentence = stripped @ ''.'';
                 sentence_tokens = count_tokens enc sentence
             in if current_tokens + sentence_tokens > CHUNK_SIZE cfg \<and> current_chunk \<noteq> [] then
                  let new_chunk = get_overlap_text enc current_chunk (CHUNK_OVERLAP cfg) @ '' '' @ sentence
                  in (buffers @ [current_chunk], new_chunk, count_tokens enc new_chunk)
                else (buffers, current_chunk @ '' '' @ sentence, current_tokens + sentence_tokens))"

fun buffer_loop ::
  "'t encoding \<Rightarrow> config \<Rightarrow> string list \<Rightarrow> string list \<times> string \<times> int \<Rightarrow> string list \<times> string \<times> int" where
  "buffer_loop enc cfg [] st = st"
| "buffer_loop enc cfg (s # pieces) st = buffer_loop enc cfg pieces (buffer_step enc cfg s st)"

definition chunk_buffers :: "'t encoding \<Rightarrow> config \<Rightarrow> string \<Rightarrow> string list" where
  "chunk_buffers enc cfg text =
     (case buffer_loop enc cfg (split_on CHR ''.'' text) ([], [], 0) of
        (buffers, current_chunk, current_tokens) \<Rightarrow>
          if strip current_chunk \<noteq> [] then buffers @ [current_chunk] else buffers)"

text \<open>Each buffer after the first begins with the overlap text of the one before it and a space.\<close>

fun overlap_chained :: "'t encoding \<Rightarrow> int \<Rightarrow> string list \<Rightarrow> bool" where
  "overlap_chained enc k [] = True"
| "overlap_chained enc k [b] = True"
| "overlap_chained enc k (b # b' # bs) =
     (prefix (get_overlap_text enc b k @ '' '') b' \<and> overlap_chained enc k (b' # bs))"

text \<open>
  A tokenizer on which the chunker's running count is off by at most one token for each
  joined sentence: no tokens for the empty text, joining two texts with a space gives at
  most the sum of their counts and one more, and neither stripping a text nor decoding
  tokens and encoding them again gives more tokens.
\<close>

definition join_bounded_tokenizer :: "'t encoding \<Rightarrow> bool" where
  "join_bounded_tokenizer enc =
     (encode enc [] = [] \<and>
      (\<forall>a b. count_tokens enc (a @ '' '' @ b) \<le> count_tokens enc a + count_tokens enc b + 1) \<and>
      (\<forall>a. count_tokens enc (strip a) \<le> count_tokens enc a) \<and>
      (\<forall>ts. length (encode enc (decode enc ts)) \<le> length ts))"

text \<open>Two tokenizers: one token per character, and one token per non-blank character.\<close>

definition char_encoding :: "char encoding" where
  "char_encoding = \<lparr>encode = (\<lambda>s. s), decode = (\<lambda>ts. ts)\<rparr>"

definition nonspace_encoding :: "char encoding" where
  "nonspace_encoding = \<lparr>encode = filter (\<lambda>c. \<not> is_space c), decode = (\<lambda>ts. ts)\<rparr>"

definition small_config :: config where
  "small_config = \<lparr>CHUNK_SIZE = 10, CHUNK_OVERLAP = 2, TOP_K_DEFAULT = 4, MAX_HISTORY_TURNS = 5\<rparr>"

section \<open>Answer parsing\<close>

lemma parse_lines_append: "parse_lines (xs @ ys) st = parse_lines ys (parse_lines xs st)"
  by (induction xs arbitrary: st) simp_all

lemma parse_lines_no_marker_none:
  "\<not> list_ex (\<lambda>l. startswith (strip l) ''ANSWER:'') ls \<Longrightarrow>
   \<not> list_ex (\<lambda>l. startswith (strip l) ''REASONING:'') ls \<Longrightarrow>
   parse_lines ls (NoSection, a, r) = (NoSection, a, r)"
  by (induction ls) (simp_all add: parse_line_def)

lemma parse_lines_no_marker_answer:
  "\<not> list_ex (\<lambda>l. startswith (strip l) ''ANSWER:'') ls \<Longrightarrow>
   \<not> list_ex (\<lambda>l. startswith (strip l) ''REASONING:'') ls \<Longrightarrow>
   parse_lines ls (AnswerSection, a, r) =
     (AnswerSection, a @ concat (map (\<lambda>x. '' '' @ strip x) (filter (\<lambda>x. strip x \<noteq> []) ls)), r)"
  by (induction ls arbitrary: a) (simp_all add: parse_line_def)

text \<open>Without a \<open>REASONING:\<close> line the reasoning stays empty and its section is never entered.\<close>

lemma parse_lines_no_reasoning:
  "\<not> list_ex (\<lambda>l. startswith (strip l) ''REASONING:'') ls \<Longrightarrow> sec \<noteq> ReasoningSection \<Longrightarrow>
   (case parse_lines ls (sec, a, []) of (s', a', r') \<Rightarrow> s' \<noteq> ReasoningSection \<and> r' = [])"
  by (induction ls arbitrary: sec a) (simp_all add: parse_line_def Let_def)

text \<open>
  Claim C2, as stated, fails twice. The response \<open>''hi ''\<close> has no marker line, yet the answer
  returned is \<open>''hi''\<close>: the parser strips what it returns. The response \<open>''ANSWER:''\<close> has an
  \<open>ANSWER:\<close> line and no \<open>REASONING:\<close> line, yet the reasoning is the first fallback's: the
  parser tests whether the captured fields are empty, not whether a marker was seen.
\<close>

theorem parse_fallbacks_counterexample:
  "\<not> has_marker_line ''ANSWER:'' ''hi '' \<and> \<not> has_marker_line ''REASONING:'' ''hi '' \<and>
   fst (parse_llm_response ''hi '') \<noteq> ''hi '' \<and>
   has_marker_line ''ANSWER:'' ''ANSWER:'' \<and> \<not> has_marker_line ''REASONING:'' ''ANSWER:'' \<and>
   snd (parse_llm_response ''ANSWER:'') \<noteq> ''Based on the provided document context.''"
  by (simp add: parse_llm_response_def parse_line_def has_marker_line_def strip_def lstrip_def
      rstrip_def is_space_def startswith_def newline_def)

text \<open>
  Claim C2, amended. Let the response have no \<open>REASONING:\<close> line. If it has no \<open>ANSWER:\<close>
  line either, the parser returns the stripped response and the reasoning
  "Answer derived from document analysis.". If \<open>l\<close> is its last \<open>ANSWER:\<close> line and \<open>post\<close>
  the lines after it, the parser returns the stripped captured answer and the reasoning
  "Based on the provided document context." when the captured answer is not empty, and the
  first fallback (stripped response, "Answer derived from document analysis.") when it is.
\<close>

theorem parse_fallbacks:
  assumes nr: "\<not> has_marker_line ''REASONING:'' response"
  shows "(\<not> has_marker_line ''ANSWER:'' response \<longrightarrow>
            parse_llm_response response = (strip response, ''Answer derived from document analysis.'')) \<and>
         (split_on newline response = pre @ l # post \<and> startswith (strip l) ''ANSWER:'' \<and>
          \<not> list_ex (\<lambda>x. startswith (strip x) ''ANSWER:'') post \<longrightarrow>
            parse_llm_response response =
              (if captured_answer l post = []
               then (strip response, ''Answer derived from document analysis.'')
               else (strip (captured_answer l post), ''Based on the provided document context.'')))"
proof (intro conjI impI)
  assume na: "\<not> has_marker_line ''ANSWER:'' response"
  have "parse_lines (split_on newline response) (NoSection, [], []) = (NoSection, [], [])"
    using na nr by (intro parse_lines_no_marker_none) (simp_all add: has_marker_line_def)
  then show "parse_llm_response response = (strip response, ''Answer derived from document analysis.'')"
    by (simp add: parse_llm_response_def strip_def lstrip_def rstrip_def is_space_def)
next
  assume h: "split_on newline response = pre @ l # post \<and> startswith (strip l) ''ANSWER:'' \<and>
          \<not> list_ex (\<lambda>x. startswith (strip x) ''ANSWER:'') post"
  from nr h have nr_pre: "\<not> list_ex (\<lambda>l. startswith (strip l) ''REASONING:'') pre"
    and nr_post: "\<not> list_ex (\<lambda>l. startswith (strip l) ''REASONING:'') post"
    by (simp_all add: has_marker_line_def)
  obtain sec a r where pre: "parse_lines pre (NoSection, [], []) = (sec, a, r)"
    by (cases "parse_lines pre (NoSection, [], [])") auto
  from parse_lines_no_reasoning [OF nr_pre, of NoSection "[]"] pre have r: "r = []"
    by simp
  have step: "parse_line l (sec, a, []) = (AnswerSection, strip (drop 7 (strip l)), [])"
    using h by (simp add: parse_line_def)
  have "parse_lines (split_on newline response) (NoSection, [], []) =
        (AnswerSection, captured_answer l post, [])"
    using h pre r step parse_lines_no_marker_answer [OF _ nr_post]
    by (simp add: parse_lines_append captured_answer_def)
  then show "parse_llm_response response =
              (if captured_answer l post = []
               then (strip response, ''Answer derived from document analysis.'')
               else (strip (captured_answer l post), ''Based on the provided document context.''))"
    by (simp add: parse_llm_response_def strip_def lstrip_def rstrip_def is_space_def)
qed

theorem parse_fallbacks_witness:
  "parse_llm_response ''just text'' = (''just text'', ''Answer derived from document analysis.'') \<and>
   parse_llm_response (''ANSWER: Paris'' @ [newline] @ ''is the capital'') =
     (''Paris is the capital'', ''Based on the provided document context.'')"
  using parse_fallbacks [of "''just text''" "[]" "[]" "[]"]
    parse_fallbacks [of "''ANSWER: Paris'' @ [newline] @ ''is the capital''" "[]" "''ANSWER: Paris''"
      "[''is the capital'']"]
  by (simp add: has_marker_line_def captured_answer_def strip_def lstrip_def rstrip_def
      is_space_def startswith_def newline_def)

section \<open>References\<close>

lemma extract_references_loop_map:
  "extract_references_loop rcs refs = refs @ map make_reference rcs"
  by (induction rcs arbitrary: refs) simp_all

lemma round_half_even_close: "\<bar>of_int (round_half_even x) - x\<bar> \<le> 1 / 2"
  unfolding round_half_even_def Let_def by (auto; linarith)

lemma py_round3_close: "\<bar>py_round x 3 - x\<bar> \<le> 1 / 2000"
proof -
  have "\<bar>of_int (round_half_even (x * 1000)) - x * 1000\<bar> \<le> 1 / 2"
    by (rule round_half_even_close)
  then have "\<bar>(of_int (round_half_even (x * 1000)) - x * 1000) / 1000\<bar> \<le> (1 / 2) / 1000"
    by (simp add: abs_divide del: times_divide_eq_left)
  then show ?thesis
    by (simp add: py_round_def diff_divide_distrib)
qed

lemma py_round3_grid: "\<exists>k :: int. py_round x 3 = of_int k / 1000"
  by (auto simp: py_round_def)

lemma make_reference_score:
  "(case rc of (cid, content, metadata, score) \<Rightarrow>
      (\<exists>k :: int. relevance_score (make_reference rc) = of_int k / 1000) \<and>
      \<bar>relevance_score (make_reference rc) - score\<bar> \<le> 1 / 2000)"
  using py_round3_grid py_round3_close by (simp add: make_reference_def split: prod.split)

text \<open>
  Claim C6. \<open>_extract_references\<close> returns one reference per retrieved chunk, in retrieval
  order: its \<open>chunk_id\<close> is the chunk's, its snippet is the chunk text when that has at most
  150 characters and otherwise its first 150 characters followed by "...", and its score is
  a multiple of 0.001 within 0.0005 of the retrieval similarity (\<open>round(score, 3)\<close>). The
  \<open>answer\<close> argument does not change the result.
\<close>

theorem extract_references_spec:
  "length (extract_references retrieved answer_text) = length retrieved \<and>
   map chunk_id (extract_references retrieved answer_text) = map fst retrieved \<and>
   map content_snippet (extract_references retrieved answer_text) =
     map (\<lambda>(cid, content, metadata, score).
            if length content > 150 then take 150 content @ ''...'' else content) retrieved \<and>
   map relevance_score (extract_references retrieved answer_text) =
     map (\<lambda>(cid, content, metadata, score). py_round score 3) retrieved \<and>
   list_all2 (\<lambda>r (cid, content, metadata, score).
       (\<exists>k :: int. relevance_score r = of_int k / 1000) \<and> \<bar>relevance_score r - score\<bar> \<le> 1 / 2000)
     (extract_references retrieved answer_text) retrieved \<and>
   extract_references retrieved answer_text = extract_references retrieved other_answer"
proof -
  have refs: "extract_references retrieved a = map make_reference retrieved" for a
    by (simp add: extract_references_def extract_references_loop_map)
  have ids: "map chunk_id (map make_reference retrieved) = map fst retrieved"
    by (simp add: make_reference_def split_beta)
  have snippets: "map content_snippet (map make_reference retrieved) =
     map (\<lambda>(cid, content, metadata, score).
            if length content > 150 then take 150 content @ ''...'' else content) retrieved"
    by (simp add: make_reference_def split_beta)
  have rounded: "map relevance_score (map make_reference retrieved) =
     map (\<lambda>(cid, content, metadata, score). py_round score 3) retrieved"
    by (simp add: make_reference_def split_beta)
  have scores: "list_all2 (\<lambda>r (cid, content, metadata, score).
       (\<exists>k :: int. relevance_score r = of_int k / 1000) \<and> \<bar>relevance_score r - score\<bar> \<le> 1 / 2000)
     (map make_reference retrieved) retrieved"
    unfolding list_all2_map1 by (rule list_all2_same [THEN iffD2]) (use make_reference_score in blast)
  show ?thesis
    unfolding refs using ids snippets rounded scores by simp
qed

text \<open>The spec's two examples: a body of 200 characters and one of 100.\<close>

theorem extract_references_spec_witness:
  "map content_snippet
     (extract_references
        [(''c0'', replicate 200 CHR ''a'', snd (snd sky_hit)), (''c1'', replicate 100 CHR ''b'', snd (snd sky_hit))]
        ''an answer'') =
   [replicate 150 CHR ''a'' @ ''...'', replicate 100 CHR ''b'']"
  using extract_references_spec [of
      "[(''c0'', replicate 200 CHR ''a'', snd (snd sky_hit)), (''c1'', replicate 100 CHR ''b'', snd (snd sky_hit))]"
      "''an answer''" "''an answer''"]
  by (simp add: sky_hit_def)

section \<open>The orchestrator's early returns\<close>

text \<open>
  Claim C1. When the vector-index search returns no chunk, \<open>answer_question\<close> returns the
  fixed response (the apologetic answer, no references, two suggestions) and leaves the
  conversation store as it was: no turn is appended.
\<close>

theorem answer_question_no_evidence:
  assumes "similarity_search sv question top_k = []"
  shows "answer_question sv cfg db user_id question top_k = (no_evidence_response user_id, db) \<and>
         answer (no_evidence_response user_id) =
           ''I couldn't find relevant information in the uploaded documents to answer your question.'' \<and>
         references (no_evidence_response user_id) = [] \<and>
         length (suggestions (no_evidence_response user_id)) = 2"
  using assms by (simp add: answer_question_def no_evidence_response_def)

theorem answer_question_no_evidence_witness:
  "similarity_search (stub_services [] (Inr ''unused'')) ''What color is the sky?'' 4 = [] \<and>
   answer_question (stub_services [] (Inr ''unused'')) default_config Map.empty ''u1''
       ''What color is the sky?'' 4 =
     (no_evidence_response ''u1'', Map.empty)"
  using answer_question_no_evidence [of "stub_services [] (Inr ''unused'')" "''What color is the sky?''" 4
      default_config Map.empty "''u1''"]
  by (simp add: similarity_search_def get_embedding_def stub_services_def)

text \<open>
  Claim C3. When there is evidence and the chat endpoint raises, \<open>answer_question\<close> returns
  the degraded response: the answer is the fixed prefix followed by the error's message, there
  are no references and one suggestion; the conversation store is left as it was.
\<close>

theorem answer_question_generation_failed:
  assumes "similarity_search sv question top_k \<noteq> []"
    and "chat_completions_create sv
           (build_context_prompt question (get_conversation_history cfg db user_id None)
              (similarity_search sv question top_k)) = Inl e"
  shows "answer_question sv cfg db user_id question top_k = (generation_failed_response user_id e, db) \<and>
         answer (generation_failed_response user_id e) =
           ''I encountered an error while processing your question: '' @ e \<and>
         references (generation_failed_response user_id e) = [] \<and>
         length (suggestions (generation_failed_response user_id e)) = 1"
  using assms by (simp add: answer_question_def generation_failed_response_def Let_def)

theorem answer_question_generation_failed_witness:
  "answer_question (stub_services [sky_hit] (Inl ''timeout'')) default_config Map.empty ''u1'' ''why?'' 4 =
     (generation_failed_response ''u1'' ''timeout'', Map.empty)"
  using answer_question_generation_failed [of "stub_services [sky_hit] (Inl ''timeout'')" "''why?''" 4
      default_config Map.empty "''u1''" "''timeout''"]
  by (simp add: similarity_search_def get_embedding_def stub_services_def sky_hit_def)

text \<open>
  Claim C10. On every path (no evidence, generation failure, success) the response's
  \<open>conversation_id\<close> is the \<open>user_id\<close> the call was given.
\<close>

theorem answer_question_conversation_id:
  "conversation_id (fst (answer_question sv cfg db user_id question top_k)) = user_id"
  by (simp add: answer_question_def no_evidence_response_def generation_failed_response_def Let_def
      split: sum.split prod.split)

section \<open>Chunking\<close>

subsection \<open>Chunk identifiers\<close>


lemma nat_of_digits_snoc: "nat_of_digits (s @ [c]) = 10 * nat_of_digits s + (of_char c - 48)"
  by (simp add: nat_of_digits_def)

lemma of_char_digit_char: "d < 10 \<Longrightarrow> of_char (digit_char d) = (48 + d :: nat)"
  by (simp add: digit_char_def)

lemma nat_of_digits_str_nat: "nat_of_digits (str_nat n) = n"
proof (induction n rule: str_nat.induct)
  case (1 n)
  show ?case
  proof (cases "n < 10")
    case True
    then show ?thesis
      by (subst str_nat.simps) (simp add: nat_of_digits_def of_char_digit_char)
  next
    case False
    with 1 have "nat_of_digits (str_nat (n div 10)) = n div 10" by simp
    with False show ?thesis
      by (subst str_nat.simps) (simp add: nat_of_digits_snoc of_char_digit_char)
  qed
qed

lemma str_nat_inj: "str_nat a = str_nat b \<Longrightarrow> a = b"
  by (metis nat_of_digits_str_nat)

lemma chunk_step_ids:
  assumes "chunk_step enc cfg clock doc fn pm s (chunks, cur, tok, idx) = (chunks', cur', tok', idx')"
    and "map dc_chunk_id chunks = map (\<lambda>i. doc @ ''_chunk_'' @ str_nat i) [0..<idx]"
  shows "map dc_chunk_id chunks' = map (\<lambda>i. doc @ ''_chunk_'' @ str_nat i) [0..<idx']"
  using assms by (auto simp: chunk_step_def Let_def make_chunk_def split: if_splits)

lemma chunk_loop_ids:
  assumes "chunk_loop enc cfg clock doc fn pm ss (chunks, cur, tok, idx) = (chunks', cur', tok', idx')"
    and "map dc_chunk_id chunks = map (\<lambda>i. doc @ ''_chunk_'' @ str_nat i) [0..<idx]"
  shows "map dc_chunk_id chunks' = map (\<lambda>i. doc @ ''_chunk_'' @ str_nat i) [0..<idx']"
  using assms
proof (induction ss arbitrary: chunks cur tok idx)
  case Nil
  then show ?case by simp
next
  case (Cons s ss)
  obtain c1 u1 t1 i1 where st: "chunk_step enc cfg clock doc fn pm s (chunks, cur, tok, idx) = (c1, u1, t1, i1)"
    by (cases "chunk_step enc cfg clock doc fn pm s (chunks, cur, tok, idx)") auto
  from chunk_step_ids [OF st Cons.prems(2)] Cons.IH [of c1 u1 t1 i1] Cons.prems(1) st
  show ?case by simp
qed


lemma digit_char_0_1: "digit_char 0 = CHR ''0''" "digit_char (Suc 0) = CHR ''1''"
  by code_simp+

text \<open>
  Claim C5. The \<open>chunk_id\<close>s of the chunks \<open>chunk_text\<close> returns are, in order,
  \<open>{document_id}_chunk_0\<close> up to \<open>{document_id}_chunk_{N-1}\<close> for the \<open>N\<close> chunks returned,
  and no two of them are equal.
\<close>

theorem chunk_ids_contiguous:
  "map dc_chunk_id (chunk_text enc cfg clock text document_id filename page_mapping) =
     map (\<lambda>i. document_id @ ''_chunk_'' @ str_nat i)
       [0..<length (chunk_text enc cfg clock text document_id filename page_mapping)] \<and>
   distinct (map dc_chunk_id (chunk_text enc cfg clock text document_id filename page_mapping))"
proof -
  obtain chunks cur tok idx where
    loop: "chunk_loop enc cfg clock document_id filename page_mapping (split_on CHR ''.'' text) ([], [], 0, 0) =
      (chunks, cur, tok, idx)"
    by (cases "chunk_loop enc cfg clock document_id filename page_mapping (split_on CHR ''.'' text) ([], [], 0, 0)") auto
  have ids: "map dc_chunk_id chunks = map (\<lambda>i. document_id @ ''_chunk_'' @ str_nat i) [0..<idx]"
    using chunk_loop_ids [OF loop] by simp
  then have len: "length chunks = idx"
    by (metis length_map length_upt minus_nat.diff_0)
  let ?cs = "chunk_text enc cfg clock text document_id filename page_mapping"
  have all: "map dc_chunk_id ?cs = map (\<lambda>i. document_id @ ''_chunk_'' @ str_nat i) [0..<length ?cs]"
    using ids len by (simp add: chunk_text_def loop make_chunk_def)
  have "inj_on (\<lambda>i. document_id @ ''_chunk_'' @ str_nat i) A" for A
    by (rule inj_onI) (simp add: str_nat_inj)
  then have "distinct (map (\<lambda>i. document_id @ ''_chunk_'' @ str_nat i) [0..<length ?cs])"
    by (simp add: distinct_map)
  with all show ?thesis by simp
qed

theorem chunk_ids_contiguous_witness:
  "map dc_chunk_id (chunk_text char_encoding small_config (\<lambda>k. ''t'') ''a.a.a.a.a.a.'' ''d'' ''f'' None) =
     [''d_chunk_0'', ''d_chunk_1'']"
proof -
  have "length (chunk_text char_encoding small_config (\<lambda>k. ''t'') ''a.a.a.a.a.a.'' ''d'' ''f'' None) = 2"
    by (simp add: chunk_text_def chunk_step_def get_overlap_text_def slice_from_def
        strip_def lstrip_def rstrip_def is_space_def count_tokens_def char_encoding_def
        small_config_def Let_def)
  with chunk_ids_contiguous [of char_encoding small_config "\<lambda>k. ''t''" "''a.a.a.a.a.a.''" "''d''" "''f''" None]
  show ?thesis
    by (simp add: numeral_2_eq_2 str_nat.simps [of 0] str_nat.simps [of "Suc 0"] digit_char_0_1)
qed


subsection \<open>Facts about strip\<close>

lemma rstrip_lstrip: "rstrip y = rev (lstrip (rev y))"
  by (simp add: rstrip_def lstrip_def)

lemma lstrip_sublist:
  assumes "sublist s b" "s \<noteq> []" "\<not> is_space (hd s)"
  shows "sublist s (lstrip b)"
proof -
  from assms(1) obtain p q where b: "b = p @ s @ q"
    by (auto simp: sublist_def)
  from assms(2) obtain h t where s: "s = h # t"
    by (cases s) auto
  with assms(3) have "dropWhile is_space (p @ h # (t @ q)) = dropWhile is_space p @ h # (t @ q)"
    by (simp add: dropWhile_append3)
  then have "lstrip b = dropWhile is_space p @ s @ q"
    by (simp add: lstrip_def b s)
  then show ?thesis by simp
qed

lemma rstrip_sublist:
  assumes "sublist s b" "s \<noteq> []" "\<not> is_space (last s)"
  shows "sublist s (rstrip b)"
proof -
  have "sublist (rev s) (lstrip (rev b))"
    using assms by (intro lstrip_sublist) (simp_all add: hd_rev)
  then show ?thesis
    by (simp add: rstrip_lstrip sublist_rev_right)
qed

lemma strip_sublist:
  "sublist s b \<Longrightarrow> s \<noteq> [] \<Longrightarrow> \<not> is_space (hd s) \<Longrightarrow> \<not> is_space (last s) \<Longrightarrow> sublist s (strip b)"
  by (simp add: strip_def lstrip_sublist rstrip_sublist)

lemma rstrip_prefix: "prefix (rstrip y) y"
  using suffix_dropWhile [of is_space "rev y"] by (simp add: rstrip_def suffix_to_prefix)

lemma strip_hd: "strip x \<noteq> [] \<Longrightarrow> \<not> is_space (hd (strip x))"
proof -
  assume ne: "strip x \<noteq> []"
  have p: "prefix (strip x) (lstrip x)"
    by (simp add: strip_def rstrip_prefix)
  with ne have l: "lstrip x \<noteq> []" by auto
  from p ne have "hd (strip x) = hd (lstrip x)"
    by (auto simp: prefix_def)
  with l show ?thesis
    by (simp add: lstrip_def hd_dropWhile)
qed

lemma full_stop_not_space: "\<not> is_space CHR ''.''"
  by (simp add: is_space_def)

lemma sentence_ends:
  "strip x \<noteq> [] \<Longrightarrow> \<not> is_space (hd (strip x @ ''.'')) \<and> \<not> is_space (last (strip x @ ''.''))"
  by (simp add: strip_hd full_stop_not_space)

subsection \<open>Chunks and buffers\<close>

lemma chunk_step_buffer_step:
  assumes "chunk_step enc cfg clock doc fn pm s (chunks, cur, tok, idx) = (chunks', cur', tok', idx')"
    and "map dc_chunk_text chunks = map strip bufs"
  shows "buffer_step enc cfg s (bufs, cur, tok) = (bufs @ drop (length chunks) (map (\<lambda>c. cur) chunks'), cur', tok') \<and>
         map dc_chunk_text chunks' = map strip (bufs @ drop (length chunks) (map (\<lambda>c. cur) chunks'))"
  using assms by (auto simp: chunk_step_def buffer_step_def Let_def make_chunk_def split: if_splits)

lemma chunk_loop_buffer_loop:
  assumes "chunk_loop enc cfg clock doc fn pm ss (chunks, cur, tok, idx) = (chunks', cur', tok', idx')"
    and "map dc_chunk_text chunks = map strip bufs"
  shows "\<exists>bufs'. buffer_loop enc cfg ss (bufs, cur, tok) = (bufs', cur', tok') \<and>
           map dc_chunk_text chunks' = map strip bufs'"
  using assms
proof (induction ss arbitrary: chunks cur tok idx bufs)
  case Nil
  then show ?case by simp
next
  case (Cons s ss)
  obtain c1 u1 t1 i1 where st: "chunk_step enc cfg clock doc fn pm s (chunks, cur, tok, idx) = (c1, u1, t1, i1)"
    by (cases "chunk_step enc cfg clock doc fn pm s (chunks, cur, tok, idx)") auto
  from chunk_step_buffer_step [OF st Cons.prems(2)]
  obtain b1 where b1: "buffer_step enc cfg s (bufs, cur, tok) = (b1, u1, t1)"
    and m1: "map dc_chunk_text c1 = map strip b1"
    by blast
  from Cons.prems(1) st have "chunk_loop enc cfg clock doc fn pm ss (c1, u1, t1, i1) = (chunks', cur', tok', idx')"
    by simp
  from Cons.IH [OF this m1] b1 show ?case by simp
qed

lemma chunk_text_buffers:
  "map dc_chunk_text (chunk_text enc cfg clock text doc fn pm) = map strip (chunk_buffers enc cfg text)"
proof -
  obtain chunks cur tok idx where
    loop: "chunk_loop enc cfg clock doc fn pm (split_on CHR ''.'' text) ([], [], 0, 0) = (chunks, cur, tok, idx)"
    by (cases "chunk_loop enc cfg clock doc fn pm (split_on CHR ''.'' text) ([], [], 0, 0)") auto
  from chunk_loop_buffer_loop [OF loop, of "[]"] obtain bufs where
    "buffer_loop enc cfg (split_on CHR ''.'' text) ([], [], 0) = (bufs, cur, tok)"
    "map dc_chunk_text chunks = map strip bufs"
    by auto
  then show ?thesis
    by (simp add: chunk_text_def chunk_buffers_def loop make_chunk_def)
qed


subsection \<open>The overlap chain\<close>

lemma overlap_chained_snoc:
  "overlap_chained enc k (bs @ [c]) =
     (overlap_chained enc k bs \<and> (bs \<noteq> [] \<longrightarrow> prefix (get_overlap_text enc (last bs) k @ '' '') c))"
  by (induction enc k bs rule: overlap_chained.induct) auto

lemma buffer_step_chained:
  assumes "buffer_step enc cfg s (bufs, cur, tok) = (bufs', cur', tok')"
    and "overlap_chained enc (CHUNK_OVERLAP cfg) bufs"
    and "bufs \<noteq> [] \<longrightarrow> prefix (get_overlap_text enc (last bufs) (CHUNK_OVERLAP cfg) @ '' '') cur"
  shows "overlap_chained enc (CHUNK_OVERLAP cfg) bufs' \<and>
         (bufs' \<noteq> [] \<longrightarrow> prefix (get_overlap_text enc (last bufs') (CHUNK_OVERLAP cfg) @ '' '') cur')"
  using assms
  by (auto simp: buffer_step_def Let_def overlap_chained_snoc split: if_splits intro: prefix_prefix)

lemma buffer_loop_chained:
  assumes "buffer_loop enc cfg ss (bufs, cur, tok) = (bufs', cur', tok')"
    and "overlap_chained enc (CHUNK_OVERLAP cfg) bufs"
    and "bufs \<noteq> [] \<longrightarrow> prefix (get_overlap_text enc (last bufs) (CHUNK_OVERLAP cfg) @ '' '') cur"
  shows "overlap_chained enc (CHUNK_OVERLAP cfg) bufs' \<and>
         (bufs' \<noteq> [] \<longrightarrow> prefix (get_overlap_text enc (last bufs') (CHUNK_OVERLAP cfg) @ '' '') cur')"
  using assms
proof (induction ss arbitrary: bufs cur tok)
  case Nil
  then show ?case by simp
next
  case (Cons s ss)
  obtain b1 u1 t1 where st: "buffer_step enc cfg s (bufs, cur, tok) = (b1, u1, t1)"
    by (cases "buffer_step enc cfg s (bufs, cur, tok)") auto
  from buffer_step_chained [OF st Cons.prems(2,3)] Cons.prems(1) st Cons.IH [of b1 u1 t1]
  show ?case by simp
qed

lemma chunk_buffers_chained: "overlap_chained enc (CHUNK_OVERLAP cfg) (chunk_buffers enc cfg text)"
proof -
  obtain bufs cur tok where
    loop: "buffer_loop enc cfg (split_on CHR ''.'' text) ([], [], 0) = (bufs, cur, tok)"
    by (cases "buffer_loop enc cfg (split_on CHR ''.'' text) ([], [], 0)") auto
  from buffer_loop_chained [OF loop] show ?thesis
    by (simp add: chunk_buffers_def loop overlap_chained_snoc)
qed

lemma get_overlap_text_suffix:
  assumes "0 < k"
  shows "\<exists>ts. suffix ts (encode enc b) \<and> int (length ts) \<le> k \<and>
           (get_overlap_text enc b k = decode enc ts \<or>
            get_overlap_text enc b k = b \<and> ts = encode enc b)"
proof (cases "int (length (encode enc b)) \<le> k")
  case True
  then show ?thesis
    by (intro exI [of _ "encode enc b"]) (simp add: get_overlap_text_def)
next
  case False
  with assms show ?thesis
    by (intro exI [of _ "drop (nat (int (length (encode enc b)) - k)) (encode enc b)"])
      (simp add: get_overlap_text_def slice_from_def suffix_drop Let_def)
qed

subsection \<open>Sentences stay whole\<close>

lemma buffer_step_covered:
  assumes "buffer_step enc cfg x (bufs, cur, tok) = (bufs', cur', tok')"
    and "(\<exists>b \<in> set bufs. sublist s b) \<or> sublist s cur"
  shows "(\<exists>b \<in> set bufs'. sublist s b) \<or> sublist s cur'"
proof -
  have "sublist s (cur @ y)" if "sublist s cur" for y
  proof -
    from that obtain p q where "cur = p @ s @ q"
      by (auto simp: sublist_def)
    then have "cur @ y = p @ s @ (q @ y)" by simp
    then show ?thesis
      by (simp only: sublist_appendI)
  qed
  with assms show ?thesis
    by (auto simp: buffer_step_def Let_def split: if_splits)
qed

lemma sublist_after: "sublist xs (ps @ c # xs)"
  using sublist_append_leftI [of xs "ps @ [c]"] by simp

lemma buffer_step_new:
  assumes "buffer_step enc cfg x (bufs, cur, tok) = (bufs', cur', tok')" and "strip x \<noteq> []"
  shows "sublist (strip x @ ''.'') cur'"
  using assms sublist_after [of "strip x @ ''.''" _ "CHR '' ''"] sublist_after [of "strip x @ ''.''" "[]" "CHR '' ''"]
  by (auto simp: buffer_step_def Let_def split: if_splits)

lemma buffer_loop_covered:
  assumes "buffer_loop enc cfg ss (bufs, cur, tok) = (bufs', cur', tok')"
    and "(\<exists>b \<in> set bufs. sublist s b) \<or> sublist s cur \<or> s \<in> set (sentences_of ss)"
  shows "(\<exists>b \<in> set bufs'. sublist s b) \<or> sublist s cur'"
  using assms
proof (induction ss arbitrary: bufs cur tok)
  case Nil
  then show ?case by (simp add: sentences_of_def)
next
  case (Cons x ss)
  obtain b1 u1 t1 where st: "buffer_step enc cfg x (bufs, cur, tok) = (b1, u1, t1)"
    by (cases "buffer_step enc cfg x (bufs, cur, tok)") auto
  have "(\<exists>b \<in> set b1. sublist s b) \<or> sublist s u1 \<or> s \<in> set (sentences_of ss)"
  proof (cases "(\<exists>b \<in> set bufs. sublist s b) \<or> sublist s cur")
    case True
    with buffer_step_covered [OF st] show ?thesis by blast
  next
    case False
    with Cons.prems(2) have "s \<in> set (sentences_of (x # ss))" by blast
    then consider "strip x \<noteq> []" "s = strip x @ ''.''" | "s \<in> set (sentences_of ss)"
      by (auto simp: sentences_of_def split: if_splits)
    then show ?thesis
    proof cases
      case 1
      with buffer_step_new [OF st] show ?thesis by simp
    next
      case 2
      then show ?thesis by simp
    qed
  qed
  with Cons.IH [of b1 u1 t1] Cons.prems(1) st show ?case by simp
qed

lemma sentences_of_ends:
  "s \<in> set (sentences_of ss) \<Longrightarrow> s \<noteq> [] \<and> \<not> is_space (hd s) \<and> \<not> is_space (last s)"
  using sentence_ends by (auto simp: sentences_of_def)

lemma chunk_buffers_cover:
  assumes "s \<in> set (sentences text)"
  shows "\<exists>b \<in> set (chunk_buffers enc cfg text). sublist s (strip b)"
proof -
  obtain bufs cur tok where
    loop: "buffer_loop enc cfg (split_on CHR ''.'' text) ([], [], 0) = (bufs, cur, tok)"
    by (cases "buffer_loop enc cfg (split_on CHR ''.'' text) ([], [], 0)") auto
  from assms have ends: "s \<noteq> []" "\<not> is_space (hd s)" "\<not> is_space (last s)"
    using sentences_of_ends by (simp_all add: sentences_def)
  from buffer_loop_covered [OF loop, of s] assms
  have "(\<exists>b \<in> set bufs. sublist s b) \<or> sublist s cur"
    by (simp add: sentences_def)
  then show ?thesis
  proof
    assume "\<exists>b \<in> set bufs. sublist s b"
    then obtain b where "b \<in> set bufs" "sublist s b" by blast
    with ends show ?thesis
      by (auto simp: chunk_buffers_def loop intro: strip_sublist)
  next
    assume "sublist s cur"
    with ends have c: "sublist s (strip cur)"
      by (simp add: strip_sublist)
    with ends(1) have "strip cur \<noteq> []" by auto
    with c show ?thesis
      by (simp add: chunk_buffers_def loop)
  qed
qed




subsection \<open>The token bound\<close>

lemma fold_max_eq_Max: "fold max xs (a :: int) = Max (set (a # xs))"
  by (simp only: Max.set_eq_fold)

lemma longest_sentence_tokens_ge:
  "0 \<le> longest_sentence_tokens enc text"
  "s \<in> set (sentences text) \<Longrightarrow> count_tokens enc s \<le> longest_sentence_tokens enc text"
  by (simp_all add: longest_sentence_tokens_def fold_max_eq_Max)

lemma join_bounded_join:
  "join_bounded_tokenizer enc \<Longrightarrow>
   count_tokens enc (a @ CHR '' '' # b) \<le> count_tokens enc a + count_tokens enc b + 1"
  by (auto simp: join_bounded_tokenizer_def)

lemma join_bounded_strip:
  "join_bounded_tokenizer enc \<Longrightarrow> count_tokens enc (strip a) \<le> count_tokens enc a"
  by (simp add: join_bounded_tokenizer_def)

lemma join_bounded_empty: "join_bounded_tokenizer enc \<Longrightarrow> count_tokens enc [] = 0"
  by (simp add: join_bounded_tokenizer_def count_tokens_def)

lemma get_overlap_text_count:
  assumes "join_bounded_tokenizer enc" "0 < k"
  shows "count_tokens enc (get_overlap_text enc t k) \<le> k"
proof (cases "int (length (encode enc t)) \<le> k")
  case True
  then show ?thesis
    by (simp add: get_overlap_text_def count_tokens_def)
next
  case False
  define ts where "ts = drop (nat (int (length (encode enc t)) - k)) (encode enc t)"
  from assms(1) have "length (encode enc (decode enc ts)) \<le> length ts"
    by (simp add: join_bounded_tokenizer_def)
  moreover from False assms(2) have "int (length ts) = k"
    by (simp add: ts_def)
  ultimately have "count_tokens enc (decode enc ts) \<le> k"
    by (simp add: count_tokens_def)
  moreover from False assms(2) have "get_overlap_text enc t k = decode enc ts"
    by (simp add: get_overlap_text_def slice_from_def Let_def ts_def)
  ultimately show ?thesis by simp
qed

text \<open>
  The invariant of the loop, \<open>n\<close> being the number of sentences taken so far: the running
  count is at most \<open>chunk_size\<close> plus the longest sentence, and the buffer has at most \<open>n\<close>
  tokens more than the running count says (one for each joining space).
\<close>

lemma sentences_of_Cons:
  "sentences_of (x # ss) = sentences_of [x] @ sentences_of ss"
  by (simp add: sentences_of_def)

lemma buffer_step_bound:
  assumes step: "buffer_step enc cfg x (bufs, cur, tok) = (bufs', cur', tok')"
    and tk: "join_bounded_tokenizer enc"
    and ov: "0 < CHUNK_OVERLAP cfg" "CHUNK_OVERLAP cfg < CHUNK_SIZE cfg"
    and L: "0 \<le> L" "strip x \<noteq> [] \<longrightarrow> count_tokens enc (strip x @ ''.'') \<le> L"
    and inv: "\<forall>b \<in> set bufs. count_tokens enc (strip b) \<le> CHUNK_SIZE cfg + L + int n"
      "count_tokens enc cur \<le> tok + int n" "tok \<le> CHUNK_SIZE cfg + L" "cur = [] \<longrightarrow> tok = 0"
  shows "(\<forall>b \<in> set bufs'. count_tokens enc (strip b)
            \<le> CHUNK_SIZE cfg + L + int (n + length (sentences_of [x]))) \<and>
         count_tokens enc cur' \<le> tok' + int (n + length (sentences_of [x])) \<and>
         tok' \<le> CHUNK_SIZE cfg + L \<and> (cur' = [] \<longrightarrow> tok' = 0)"
proof (cases "strip x = []")
  case True
  with step inv show ?thesis
    by (simp add: buffer_step_def sentences_of_def)
next
  case False
  let ?s = "strip x @ ''.''"
  from False L have sL: "count_tokens enc ?s \<le> L" by simp
  from False have n: "int (n + length (sentences_of [x])) = int n + 1"
    by (simp add: sentences_of_def)
  show ?thesis
  proof (cases "tok + count_tokens enc ?s > CHUNK_SIZE cfg \<and> cur \<noteq> []")
    case True
    let ?o = "get_overlap_text enc cur (CHUNK_OVERLAP cfg)"
    from True False step have res: "bufs' = bufs @ [cur]" "cur' = ?o @ CHR '' '' # ?s"
      "tok' = count_tokens enc (?o @ CHR '' '' # ?s)"
      by (auto simp add: buffer_step_def Let_def)
    have "count_tokens enc (strip cur) \<le> CHUNK_SIZE cfg + L + int n"
      using join_bounded_strip [OF tk, of cur] inv(2,3) by linarith
    moreover have "count_tokens enc (?o @ CHR '' '' # ?s) \<le> CHUNK_SIZE cfg + L"
      using join_bounded_join [OF tk, of ?o ?s] get_overlap_text_count [OF tk ov(1), of cur] sL ov(2)
      by linarith
    moreover have "\<forall>b \<in> set bufs. count_tokens enc (strip b) \<le> CHUNK_SIZE cfg + L + (int n + 1)"
      using inv(1) by fastforce
    ultimately show ?thesis
      unfolding n by (simp add: res)
  next
    case else: False
    with False step have res: "bufs' = bufs" "cur' = cur @ CHR '' '' # ?s"
      "tok' = tok + count_tokens enc ?s"
      by (auto simp add: buffer_step_def Let_def)
    have c: "count_tokens enc (cur @ CHR '' '' # ?s) \<le> tok + count_tokens enc ?s + (int n + 1)"
      using join_bounded_join [OF tk, of cur ?s] inv(2) by linarith
    have t: "tok + count_tokens enc ?s \<le> CHUNK_SIZE cfg + L"
    proof (cases "cur = []")
      case True
      with inv(4) sL ov show ?thesis by simp
    next
      case False
      with else L(1) show ?thesis by simp
    qed
    have "\<forall>b \<in> set bufs. count_tokens enc (strip b) \<le> CHUNK_SIZE cfg + L + (int n + 1)"
      using inv(1) by fastforce
    with c t show ?thesis
      unfolding n by (simp add: res)
  qed
qed

lemma buffer_loop_bound:
  assumes "buffer_loop enc cfg ss (bufs, cur, tok) = (bufs', cur', tok')"
    and tk: "join_bounded_tokenizer enc"
    and ov: "0 < CHUNK_OVERLAP cfg" "CHUNK_OVERLAP cfg < CHUNK_SIZE cfg"
    and L: "0 \<le> L" "\<forall>s \<in> set (sentences_of ss). count_tokens enc s \<le> L"
    and inv: "\<forall>b \<in> set bufs. count_tokens enc (strip b) \<le> CHUNK_SIZE cfg + L + int n"
      "count_tokens enc cur \<le> tok + int n" "tok \<le> CHUNK_SIZE cfg + L" "cur = [] \<longrightarrow> tok = 0"
  shows "(\<forall>b \<in> set bufs'. count_tokens enc (strip b)
            \<le> CHUNK_SIZE cfg + L + int (n + length (sentences_of ss))) \<and>
         count_tokens enc cur' \<le> tok' + int (n + length (sentences_of ss)) \<and>
         tok' \<le> CHUNK_SIZE cfg + L"
  using assms(1) L(2) inv
proof (induction ss arbitrary: bufs cur tok n)
  case Nil
  then show ?case by (simp add: sentences_of_def)
next
  case (Cons x ss)
  obtain b1 u1 t1 where st: "buffer_step enc cfg x (bufs, cur, tok) = (b1, u1, t1)"
    by (cases "buffer_step enc cfg x (bufs, cur, tok)") auto
  from Cons.prems(2) have Lx: "strip x \<noteq> [] \<longrightarrow> count_tokens enc (strip x @ ''.'') \<le> L"
    and Lss: "\<forall>s \<in> set (sentences_of ss). count_tokens enc s \<le> L"
    by (auto simp: sentences_of_def)
  let ?n = "n + length (sentences_of [x])"
  from buffer_step_bound [OF st tk ov L(1) Lx Cons.prems(3-6)]
  have "\<forall>b \<in> set b1. count_tokens enc (strip b) \<le> CHUNK_SIZE cfg + L + int ?n"
    "count_tokens enc u1 \<le> t1 + int ?n" "t1 \<le> CHUNK_SIZE cfg + L" "u1 = [] \<longrightarrow> t1 = 0"
    by simp_all
  from Cons.IH [OF _ Lss this] Cons.prems(1) st show ?case
    by (simp add: sentences_of_Cons [of x ss] add.assoc)
qed

lemma chunk_buffers_bound:
  assumes tk: "join_bounded_tokenizer enc"
    and ov: "0 < CHUNK_OVERLAP cfg" "CHUNK_OVERLAP cfg < CHUNK_SIZE cfg"
    and b: "b \<in> set (chunk_buffers enc cfg text)"
  shows "count_tokens enc (strip b)
           \<le> CHUNK_SIZE cfg + longest_sentence_tokens enc text + int (length (sentences text))"
proof -
  let ?L = "longest_sentence_tokens enc text"
  let ?n = "length (sentences text)"
  obtain bufs cur tok where
    loop: "buffer_loop enc cfg (split_on CHR ''.'' text) ([], [], 0) = (bufs, cur, tok)"
    by (cases "buffer_loop enc cfg (split_on CHR ''.'' text) ([], [], 0)") auto
  have L: "0 \<le> ?L" "\<forall>s \<in> set (sentences_of (split_on CHR ''.'' text)). count_tokens enc s \<le> ?L"
    using longest_sentence_tokens_ge by (auto simp: sentences_def)
  from ov L(1) have "(0::int) \<le> CHUNK_SIZE cfg + ?L" by simp
  with buffer_loop_bound [OF loop tk ov L, of 0] join_bounded_empty [OF tk]
  have r: "\<forall>b \<in> set bufs. count_tokens enc (strip b) \<le> CHUNK_SIZE cfg + ?L + int ?n"
    "count_tokens enc cur \<le> tok + int ?n" "tok \<le> CHUNK_SIZE cfg + ?L"
    by (simp_all add: sentences_def)
  have "count_tokens enc (strip cur) \<le> CHUNK_SIZE cfg + ?L + int ?n"
    using join_bounded_strip [OF tk, of cur] r(2,3) by linarith
  with r(1) b show ?thesis
    by (auto simp: chunk_buffers_def loop split: if_splits)
qed

text \<open>One token per character is such a tokenizer, the joining space costing its one token.\<close>

lemma strip_length_le: "length (strip a) \<le> length a"
proof -
  have "length (rstrip y) \<le> length y" for y
    using length_dropWhile_le [of is_space "rev y"] by (simp add: rstrip_def)
  from this [of "lstrip a"] length_dropWhile_le [of is_space a] show ?thesis
    by (simp add: strip_def lstrip_def)
qed

lemma char_encoding_join_bounded: "join_bounded_tokenizer char_encoding"
  using strip_length_le by (simp add: join_bounded_tokenizer_def char_encoding_def count_tokens_def)

text \<open>
  Claim C4, as stated, fails. With one token per character, a chunk size of 10, an overlap
  of 2 and the text \<open>''a.a.a.a.a.a.''\<close> (sentences of 2 tokens), the first chunk has 14 tokens,
  more than 10 + 2: the running count adds the sentences' own counts and leaves out the
  spaces that join them. With one token per non-blank character (where that count is exact)
  and an overlap of 0, the third chunk of \<open>''abcdefgh.abcdefgh.abcdefgh.''\<close> has 27 tokens, more
  than 10 + 9: the slice \<open>tokens[-0:]\<close> is the whole list, so each chunk starts with all of
  its predecessor.
\<close>

theorem chunk_token_bound_counterexample:
  "map dc_chunk_text (chunk_text char_encoding small_config (\<lambda>k. ''t'') ''a.a.a.a.a.a.'' ''d'' ''f'' None) =
     [''a. a. a. a. a.'', ''a. a.''] \<and>
   count_tokens char_encoding ''a. a. a. a. a.'' = 14 \<and>
   CHUNK_SIZE small_config + longest_sentence_tokens char_encoding ''a.a.a.a.a.a.'' = 12 \<and>
   map dc_chunk_text (chunk_text nonspace_encoding (small_config\<lparr>CHUNK_OVERLAP := 0\<rparr>) (\<lambda>k. ''t'')
       ''abcdefgh.abcdefgh.abcdefgh.'' ''d'' ''f'' None) =
     [''abcdefgh.'', ''abcdefgh. abcdefgh.'', ''abcdefgh.abcdefgh. abcdefgh.''] \<and>
   count_tokens nonspace_encoding ''abcdefgh.abcdefgh. abcdefgh.'' = 27 \<and>
   CHUNK_SIZE small_config + longest_sentence_tokens nonspace_encoding ''abcdefgh.abcdefgh.abcdefgh.'' = 19"
  by (simp add: chunk_text_def chunk_step_def make_chunk_def get_overlap_text_def slice_from_def
      longest_sentence_tokens_def sentences_def sentences_of_def strip_def lstrip_def
      rstrip_def is_space_def count_tokens_def char_encoding_def nonspace_encoding_def
      small_config_def Let_def)

text \<open>
  Claim C4, amended. For every input text and tokenizer: the chunk texts are the stripped
  buffers of the loop; each buffer after the first begins with the overlap text of its
  predecessor buffer and a space, and for a positive \<open>overlap_tokens\<close> the overlap text of a
  buffer \<open>b\<close> is the decoding of a suffix of at most \<open>overlap_tokens\<close> of \<open>b\<close>'s tokens, or \<open>b\<close>
  itself when \<open>b\<close> has at most that many tokens; every sentence occurs whole inside the text
  of some chunk, however many tokens it has. If moreover \<open>0 < overlap_tokens < chunk_size\<close>
  and joining two texts with a space costs at most one token more than the two texts
  (stripping and decoding costing none), then every chunk's text has at most \<open>chunk_size\<close>
  plus the longest sentence's tokens plus one token for each sentence of the text.
\<close>

theorem chunk_text_overlap_and_bound:
  "map dc_chunk_text (chunk_text enc cfg clock text document_id filename page_mapping) =
     map strip (chunk_buffers enc cfg text) \<and>
   overlap_chained enc (CHUNK_OVERLAP cfg) (chunk_buffers enc cfg text) \<and>
   (0 < CHUNK_OVERLAP cfg \<longrightarrow>
      (\<exists>ts. suffix ts (encode enc b) \<and> int (length ts) \<le> CHUNK_OVERLAP cfg \<and>
         (get_overlap_text enc b (CHUNK_OVERLAP cfg) = decode enc ts \<or>
          get_overlap_text enc b (CHUNK_OVERLAP cfg) = b \<and> ts = encode enc b))) \<and>
   (\<forall>s \<in> set (sentences text).
      \<exists>c \<in> set (chunk_text enc cfg clock text document_id filename page_mapping).
        sublist s (dc_chunk_text c)) \<and>
   (join_bounded_tokenizer enc \<and> 0 < CHUNK_OVERLAP cfg \<and> CHUNK_OVERLAP cfg < CHUNK_SIZE cfg \<longrightarrow>
      (\<forall>c \<in> set (chunk_text enc cfg clock text document_id filename page_mapping).
         count_tokens enc (dc_chunk_text c)
           \<le> CHUNK_SIZE cfg + longest_sentence_tokens enc text + int (length (sentences text))))"
proof -
  let ?cs = "chunk_text enc cfg clock text document_id filename page_mapping"
  have texts: "map dc_chunk_text ?cs = map strip (chunk_buffers enc cfg text)"
    by (rule chunk_text_buffers)
  then have sets: "dc_chunk_text ` set ?cs = strip ` set (chunk_buffers enc cfg text)"
    by (metis set_map)
  have whole: "\<exists>c \<in> set ?cs. sublist s (dc_chunk_text c)" if "s \<in> set (sentences text)" for s
  proof -
    from chunk_buffers_cover [OF that, of enc cfg] obtain b where
      "b \<in> set (chunk_buffers enc cfg text)" "sublist s (strip b)" by blast
    with sets show ?thesis
      by (metis (no_types, lifting) image_iff)
  qed
  have bound: "count_tokens enc (dc_chunk_text c)
      \<le> CHUNK_SIZE cfg + longest_sentence_tokens enc text + int (length (sentences text))"
    if "join_bounded_tokenizer enc" "0 < CHUNK_OVERLAP cfg" "CHUNK_OVERLAP cfg < CHUNK_SIZE cfg"
      "c \<in> set ?cs" for c
  proof -
    from that(4) sets obtain b where "b \<in> set (chunk_buffers enc cfg text)" "dc_chunk_text c = strip b"
      by (metis (no_types, lifting) image_iff)
    with chunk_buffers_bound [OF that(1-3)] show ?thesis by simp
  qed
  show ?thesis
    using texts chunk_buffers_chained get_overlap_text_suffix whole bound by blast
qed

text \<open>
  The counterexample's own input, one token per character: 14 and 5 tokens, within
  10 + 2 + 6.
\<close>

theorem chunk_text_overlap_and_bound_witness:
  "list_all (\<lambda>c. count_tokens char_encoding (dc_chunk_text c) \<le> 18)
     (chunk_text char_encoding small_config (\<lambda>k. ''t'') ''a.a.a.a.a.a.'' ''d'' ''f'' None) \<and>
   list_ex (\<lambda>c. sublist ''a.'' (dc_chunk_text c))
     (chunk_text char_encoding small_config (\<lambda>k. ''t'') ''a.a.a.a.a.a.'' ''d'' ''f'' None)"
proof -
  have L: "longest_sentence_tokens char_encoding ''a.a.a.a.a.a.'' = 2"
    by (simp add: longest_sentence_tokens_def sentences_def sentences_of_def strip_def lstrip_def
        rstrip_def is_space_def count_tokens_def char_encoding_def)
  have S: "''a.'' \<in> set (sentences ''a.a.a.a.a.a.'')" "length (sentences ''a.a.a.a.a.a.'') = 6"
    by (simp_all add: sentences_def sentences_of_def strip_def lstrip_def rstrip_def is_space_def)
  have C: "0 < CHUNK_OVERLAP small_config \<and> CHUNK_OVERLAP small_config < CHUNK_SIZE small_config \<and>
       CHUNK_SIZE small_config = 10"
    by (simp add: small_config_def)
  show ?thesis
    using chunk_text_overlap_and_bound [of char_encoding small_config "\<lambda>k. ''t''" "''a.a.a.a.a.a.''"
        "''d''" "''f''" None "[]"] char_encoding_join_bounded L S C
    by (simp add: list_all_iff list_ex_iff)
qed

section \<open>Failed embeddings on the ingestion path\<close>

text \<open>On the query path a failed embedding ends the search with no chunk.\<close>

lemma similarity_search_failed_embedding:
  "embeddings_create sv query = Inl e \<Longrightarrow> similarity_search sv query top_k = []"
  by (simp add: similarity_search_def get_embedding_def)

text \<open>On the ingestion path every chunk is handed to the index, whatever its embedding.\<close>

lemma embed_all_length: "length (embed_all sv texts embeddings) = length embeddings + length texts"
  by (induction texts arbitrary: embeddings) simp_all

lemma add_chunks_ids: "add_ids (add_chunks sv chunks) = map dc_chunk_id chunks \<and>
    length (add_embeddings (add_chunks sv chunks)) = length chunks"
  by (simp add: add_chunks_def Let_def embed_all_length)

text \<open>
  Claim C7 at a failing input: the embedding endpoint raises for the text of the one chunk
  to index. \<open>get_embedding\<close> returns the empty vector, and \<open>add_chunks\<close> hands the chunk to
  \<open>collection.add\<close> all the same, with its id and the empty vector: nothing is skipped. On the
  query path the same failure is checked for, and \<open>similarity_search\<close> returns no chunk.
\<close>

theorem add_chunks_failed_embedding:
  "get_embedding failing_embedding_services (dc_chunk_text sky_chunk) = [] \<and>
   add_ids (add_chunks failing_embedding_services [sky_chunk]) = [''doc_chunk_0''] \<and>
   add_embeddings (add_chunks failing_embedding_services [sky_chunk]) = [[]] \<and>
   similarity_search failing_embedding_services ''What color is the sky?'' 4 = []"
  by (simp add: add_chunks_def get_embedding_def failing_embedding_services_def sky_chunk_def
      similarity_search_def)

section \<open>The structural contract of the response\<close>

lemma generate_suggestions_le3: "length (generate_suggestions ord q a refs) \<le> 3"
  by (simp add: generate_suggestions_def Let_def min_def)

text \<open>The suggestions are at most three on every path.\<close>

lemma answer_question_suggestions_le3:
  "length (suggestions (fst (answer_question sv cfg db user_id question top_k))) \<le> 3"
  by (simp add: answer_question_def no_evidence_response_def generation_failed_response_def Let_def
      generate_suggestions_le3 split: sum.split prod.split)

lemma stored_history_push:
  "stored_history (update_one_push u t n db) v =
     (if v = u then stored_history db u @ [t] else stored_history db v)"
  by (simp add: stored_history_def update_one_push_def split: option.split)

lemma stored_history_empty: "stored_history Map.empty v = []"
  by (simp add: stored_history_def)

text \<open>
  Claim C8 at a failing input: there is evidence, and the model's output has a
  \<open>REASONING:\<close> line and no \<open>ANSWER:\<close> line. The parser's fallback applies only when both
  fields are empty, so the response's answer is the empty string (its suggestions are at most
  three), and the turn stored for the user has the empty answer.
\<close>

theorem answer_question_empty_answer:
  "answer (fst (answer_question (stub_services [sky_hit] (Inr ''REASONING: the document says so''))
      default_config Map.empty ''u1'' ''What color is the sky?'' 4)) = [] \<and>
   length (suggestions (fst (answer_question (stub_services [sky_hit] (Inr ''REASONING: the document says so''))
      default_config Map.empty ''u1'' ''What color is the sky?'' 4))) \<le> 3 \<and>
   map turn_answer (stored_history (snd (answer_question
      (stub_services [sky_hit] (Inr ''REASONING: the document says so''))
      default_config Map.empty ''u1'' ''What color is the sky?'' 4)) ''u1'') = [[]]"
proof -
  have p: "parse_llm_response ''REASONING: the document says so'' = ([], ''the document says so'')"
    by (simp add: parse_llm_response_def parse_line_def strip_def lstrip_def
      rstrip_def is_space_def startswith_def newline_def)
  have s: "similarity_search (stub_services [sky_hit] r) q 4 \<noteq> []" for r q
    by (simp add: similarity_search_def get_embedding_def stub_services_def sky_hit_def)
  show ?thesis
    using s by (simp add: answer_question_def p Let_def stub_services_def generate_suggestions_def
        store_conversation_turn_def stored_history_push stored_history_empty)
qed

end
